theory Spec2Isabelle
  imports Complex_Main
begin

section \<open>JavaScript strings\<close>

text \<open>
  Strings are lists of characters. The characters of this theory are the code units
  0 to 255; in that range the white space and line terminators that
  \<^verbatim>\<open>String.prototype.trim\<close> removes are TAB, LF, VT, FF, CR, SPACE and NBSP.
\<close>

definition is_js_whitespace :: "char \<Rightarrow> bool" where
  "is_js_whitespace c =
     (c \<in> {CHR 0x09, CHR 0x0A, CHR 0x0B, CHR 0x0C, CHR 0x0D, CHR 0x20, CHR 0xA0})"

definition trim :: "string \<Rightarrow> string" where
  "trim s = rev (dropWhile is_js_whitespace (rev (dropWhile is_js_whitespace s)))"

text \<open>
  \<^verbatim>\<open>s.split(sep)\<close> for a separator of one character: the pieces between the
  occurrences of the separator, never an empty array.
\<close>

fun js_split :: "char \<Rightarrow> string \<Rightarrow> string list" where
  "js_split sep [] = [[]]"
| "js_split sep (c # cs) =
     (if c = sep then [] # js_split sep cs
      else (case js_split sep cs of
              p # ps \<Rightarrow> (c # p) # ps
            | [] \<Rightarrow> [[c]]))"

text \<open>
  \<^verbatim>\<open>xs[0]\<close> inside a template literal: the first piece, and the text
  \<^verbatim>\<open>undefined\<close> when the array is empty.
\<close>

definition first_piece :: "string list \<Rightarrow> string" where
  "first_piece ps = (case ps of [] \<Rightarrow> ''undefined'' | p # _ \<Rightarrow> p)"

section \<open>Entities of the remote document service\<close>

text \<open>
  The client's \<^verbatim>\<open>@/lib/api-client\<close> declares the entity types and throws the
  errors; the pages read \<^verbatim>\<open>err.message\<close> only. The error kinds are the taxonomy
  of the specification. A document's status is the string the service sends: the pages
  compare it with \<^verbatim>\<open>'PROCESSING'\<close>, \<^verbatim>\<open>'UPLOADED'\<close>,
  \<^verbatim>\<open>'COMPLETED'\<close> and \<^verbatim>\<open>'FAILED'\<close>.
\<close>

datatype error_kind = ValidationError | ConflictError | NotFoundError | TransportError

record api_error =
  kind :: error_kind
  message :: string

record risk_flag =
  flag_id :: string
  is_resolved :: bool
  resolution_notes :: "string option"

record document_detail =
  original_filename :: string
  status :: string
  extractions :: "string list"
  risk_flags :: "risk_flag list"
  validations :: "string list"

datatype json =
    JNull
  | JBool bool
  | JNum int
  | JStr string
  | JArr "json list"
  | JObj "(string \<times> json) list"

section \<open>The document detail page\<close>

text \<open>
  \<^verbatim>\<open>DocumentDetailPage\<close> of \<^verbatim>\<open>src/app/documents/[id]/page.tsx\<close>. The page is
  event driven: a handler runs to its first \<^verbatim>\<open>await\<close>, the rest of it runs when
  the awaited call settles. The record holds the component's \<^verbatim>\<open>useState\<close> cells
  and its \<^verbatim>\<open>pollingInterval\<close> ref under their own names, and the environment the
  handlers act on: the live interval timers (handle and period in milliseconds), the calls
  to the service that have not settled yet, the routes pushed, the files offered for
  download, and the log of the state setter calls made.

  React keeps the state of a mounted component only: a setter called after the component
  has unmounted changes nothing, and no effect runs for it. The setters below log the call
  and apply it when \<open>mounted\<close> holds.
\<close>

type_synonym handle = nat

datatype request =
    GetDocument bool
  | RetryDocument
  | DeleteDocument
  | ResolveAlert string string
  | GetReport document_detail

datatype setter =
    SetDocument document_detail
  | SetLoading bool
  | SetError string
  | SetRetrying bool
  | SetResolvingId "string option"
  | SetResolutionNotes string
  | SetIsExporting bool

record detail_page =
  page_id :: string
  document :: "document_detail option"
  loading :: bool
  error :: string
  retrying :: bool
  resolvingId :: "string option"
  resolutionNotes :: string
  isExporting :: bool
  pollingInterval :: "handle option"
  mounted :: bool
  timers :: "(handle \<times> nat) list"
  next_handle :: handle
  pending :: "(nat \<times> request) list"
  next_request :: nat
  setter_log :: "setter list"
  pushed :: "string list"
  downloads :: "(string \<times> json) list"

definition logged :: "setter \<Rightarrow> detail_page \<Rightarrow> detail_page" where
  "logged c s = s\<lparr>setter_log := setter_log s @ [c]\<rparr>"

definition setDocument :: "document_detail \<Rightarrow> detail_page \<Rightarrow> detail_page" where
  "setDocument d s = logged (SetDocument d) (if mounted s then s\<lparr>document := Some d\<rparr> else s)"

definition setLoading :: "bool \<Rightarrow> detail_page \<Rightarrow> detail_page" where
  "setLoading b s = logged (SetLoading b) (if mounted s then s\<lparr>loading := b\<rparr> else s)"

definition setError :: "string \<Rightarrow> detail_page \<Rightarrow> detail_page" where
  "setError m s = logged (SetError m) (if mounted s then s\<lparr>error := m\<rparr> else s)"

definition setRetrying :: "bool \<Rightarrow> detail_page \<Rightarrow> detail_page" where
  "setRetrying b s = logged (SetRetrying b) (if mounted s then s\<lparr>retrying := b\<rparr> else s)"

definition setResolvingId :: "string option \<Rightarrow> detail_page \<Rightarrow> detail_page" where
  "setResolvingId r s =
     logged (SetResolvingId r) (if mounted s then s\<lparr>resolvingId := r\<rparr> else s)"

definition setResolutionNotes :: "string \<Rightarrow> detail_page \<Rightarrow> detail_page" where
  "setResolutionNotes n s =
     logged (SetResolutionNotes n) (if mounted s then s\<lparr>resolutionNotes := n\<rparr> else s)"

definition setIsExporting :: "bool \<Rightarrow> detail_page \<Rightarrow> detail_page" where
  "setIsExporting b s =
     logged (SetIsExporting b) (if mounted s then s\<lparr>isExporting := b\<rparr> else s)"

text \<open>A call to the service: it is in flight, under a fresh number, until it settles.\<close>

definition issue :: "request \<Rightarrow> detail_page \<Rightarrow> detail_page" where
  "issue r s =
     s\<lparr>pending := pending s @ [(next_request s, r)], next_request := Suc (next_request s)\<rparr>"

definition settle :: "nat \<Rightarrow> detail_page \<Rightarrow> detail_page" where
  "settle k s = s\<lparr>pending := filter (\<lambda>(k', r). k' \<noteq> k) (pending s)\<rparr>"

definition clearInterval :: "handle \<Rightarrow> detail_page \<Rightarrow> detail_page" where
  "clearInterval h s = s\<lparr>timers := filter (\<lambda>(h', p). h' \<noteq> h) (timers s)\<rparr>"

text \<open>\<^verbatim>\<open>if (pollingInterval.current) clearInterval(pollingInterval.current)\<close>\<close>

definition clear_current :: "detail_page \<Rightarrow> detail_page" where
  "clear_current s = (case pollingInterval s of None \<Rightarrow> s | Some h \<Rightarrow> clearInterval h s)"

subsection \<open>loadDocument\<close>

definition loadDocument :: "bool \<Rightarrow> detail_page \<Rightarrow> detail_page" where
  "loadDocument showLoadingState s =
     issue (GetDocument showLoadingState)
       (if showLoadingState then setLoading True s else s)"

definition loadDocument_settled ::
  "bool \<Rightarrow> api_error + document_detail \<Rightarrow> detail_page \<Rightarrow> detail_page" where
  "loadDocument_settled showLoadingState r s =
     (let s1 = (case r of
                  Inr data \<Rightarrow> setDocument data s
                | Inl err \<Rightarrow> clear_current (setError (message err) s))
      in if showLoadingState then setLoading False s1 else s1)"

subsection \<open>handleExportReport\<close>

definition export_filename :: "document_detail \<Rightarrow> string \<Rightarrow> string" where
  "export_filename doc now_iso =
     ''Audit-Report-'' @ first_piece (js_split CHR ''.'' (original_filename doc))
       @ ''-'' @ first_piece (js_split CHR ''T'' now_iso) @ ''.json''"

definition handleExportReport :: "detail_page \<Rightarrow> detail_page" where
  "handleExportReport s =
     (case document s of
        None \<Rightarrow> s
      | Some doc \<Rightarrow> issue (GetReport doc) (setIsExporting True s))"

text \<open>
  \<open>now_iso\<close> is what \<^verbatim>\<open>new Date().toISOString()\<close> returns when the report has
  arrived; the file holds \<^verbatim>\<open>JSON.stringify(reportData, null, 2)\<close>, kept here as the
  report itself.
\<close>

definition handleExportReport_settled ::
  "document_detail \<Rightarrow> api_error + json \<Rightarrow> string \<Rightarrow> detail_page \<Rightarrow> detail_page" where
  "handleExportReport_settled doc r now_iso s =
     setIsExporting False
       (case r of
          Inr reportData \<Rightarrow>
            s\<lparr>downloads := downloads s @ [(export_filename doc now_iso, reportData)]\<rparr>
        | Inl err \<Rightarrow> setError (''Failed to generate audit report: '' @ message err) s)"

subsection \<open>handleResolveAlert\<close>

text \<open>\<^verbatim>\<open>!resolvingId\<close> holds of \<^verbatim>\<open>null\<close> and of the empty string.\<close>

definition handleResolveAlert :: "detail_page \<Rightarrow> detail_page" where
  "handleResolveAlert s =
     (case resolvingId s of
        None \<Rightarrow> s
      | Some rid \<Rightarrow>
          if rid = [] \<or> trim (resolutionNotes s) = [] then s
          else issue (ResolveAlert rid (resolutionNotes s)) s)"

definition handleResolveAlert_settled :: "api_error + unit \<Rightarrow> detail_page \<Rightarrow> detail_page" where
  "handleResolveAlert_settled r s =
     (case r of
        Inr _ \<Rightarrow> loadDocument False (setResolutionNotes [] (setResolvingId None s))
      | Inl err \<Rightarrow> setError (''Failed to resolve alert: '' @ message err) s)"

subsection \<open>handleRetry and handleDelete\<close>

definition handleRetry :: "detail_page \<Rightarrow> detail_page" where
  "handleRetry s = issue RetryDocument (setRetrying True s)"

definition handleRetry_settled :: "api_error + unit \<Rightarrow> detail_page \<Rightarrow> detail_page" where
  "handleRetry_settled r s =
     setRetrying False
       (case r of
          Inr _ \<Rightarrow> loadDocument True s
        | Inl err \<Rightarrow> setError (message err) s)"

text \<open>\<open>confirmed\<close> is the answer of the \<^verbatim>\<open>confirm\<close> dialog.\<close>

definition handleDelete :: "bool \<Rightarrow> detail_page \<Rightarrow> detail_page" where
  "handleDelete confirmed s = (if \<not> confirmed then s else issue DeleteDocument s)"

definition handleDelete_settled :: "api_error + unit \<Rightarrow> detail_page \<Rightarrow> detail_page" where
  "handleDelete_settled r s =
     (case r of
        Inr _ \<Rightarrow> s\<lparr>pushed := pushed s @ [''/documents'']\<rparr>
      | Inl err \<Rightarrow> setError (message err) s)"

subsection \<open>The polling effect\<close>

text \<open>
  \<^verbatim>\<open>document?.status\<close> is \<^verbatim>\<open>undefined\<close> while no document is loaded. The
  effect has \<^verbatim>\<open>[document?.status]\<close> as its dependencies: React runs it after a
  render of the mounted component in which that value has changed.
\<close>

definition doc_status :: "detail_page \<Rightarrow> string option" where
  "doc_status s = map_option status (document s)"

definition polling_status :: "string option \<Rightarrow> bool" where
  "polling_status st = (st = Some ''PROCESSING'' \<or> st = Some ''UPLOADED'')"

definition setInterval :: "nat \<Rightarrow> detail_page \<Rightarrow> detail_page" where
  "setInterval ms s =
     s\<lparr>pollingInterval := Some (next_handle s),
       timers := timers s @ [(next_handle s, ms)],
       next_handle := Suc (next_handle s)\<rparr>"

definition polling_effect :: "detail_page \<Rightarrow> detail_page" where
  "polling_effect s =
     (if polling_status (doc_status s) then
        (if pollingInterval s = None then setInterval 3000 s else s)
      else
        (case pollingInterval s of
           Some h \<Rightarrow> (clearInterval h s)\<lparr>pollingInterval := None\<rparr>
         | None \<Rightarrow> s))"

definition commit :: "detail_page \<Rightarrow> detail_page \<Rightarrow> detail_page" where
  "commit old s =
     (if mounted s \<and> doc_status s \<noteq> doc_status old then polling_effect s else s)"

subsection \<open>Mounting, unmounting and the events of a mounted page\<close>

definition initial :: "string \<Rightarrow> detail_page" where
  "initial i =
     \<lparr>page_id = i, document = None, loading = True, error = [], retrying = False,
      resolvingId = None, resolutionNotes = [], isExporting = False,
      pollingInterval = None, mounted = True, timers = [], next_handle = 1,
      pending = [], next_request = 0, setter_log = [], pushed = [], downloads = []\<rparr>"

text \<open>
  The first render runs both effects: the one on \<^verbatim>\<open>[id]\<close> loads the document when
  the id is not the empty string; the polling effect finds no document and no interval.
\<close>

definition mount :: "string \<Rightarrow> detail_page" where
  "mount i = polling_effect (if i \<noteq> [] then loadDocument True (initial i) else initial i)"

text \<open>The cleanup of the effect on \<^verbatim>\<open>[id]\<close>, run when the component unmounts.\<close>

definition unmount :: "detail_page \<Rightarrow> detail_page" where
  "unmount s = (clear_current s)\<lparr>mounted := False\<rparr>"

datatype event =
    GotDocument nat "api_error + document_detail"
  | Tick handle
  | Unmount
  | ClickRetry
  | Retried nat "api_error + unit"
  | ClickDelete bool
  | Deleted nat "api_error + unit"
  | ClickResolveFlag string
  | TypeNotes string
  | ClickCancel
  | ClickConfirm
  | Resolved nat "api_error + unit"
  | ClickExport
  | GotReport nat "api_error + json" string

text \<open>
  What the page's code does on an event. A settling call runs the rest of its handler
  whether the page is still mounted or not; a timer fires while it is live; the user
  acts on a mounted page only. An event that cannot happen in a state leaves it as it is.
\<close>

fun react :: "detail_page \<Rightarrow> event \<Rightarrow> detail_page" where
  "react s (GotDocument k r) =
     (case map_of (pending s) k of
        Some (GetDocument b) \<Rightarrow> loadDocument_settled b r (settle k s)
      | _ \<Rightarrow> s)"
| "react s (Tick h) = (if h \<in> fst ` set (timers s) then loadDocument False s else s)"
| "react s Unmount = (if mounted s then unmount s else s)"
| "react s ClickRetry = (if mounted s then handleRetry s else s)"
| "react s (Retried k r) =
     (case map_of (pending s) k of
        Some RetryDocument \<Rightarrow> handleRetry_settled r (settle k s)
      | _ \<Rightarrow> s)"
| "react s (ClickDelete confirmed) = (if mounted s then handleDelete confirmed s else s)"
| "react s (Deleted k r) =
     (case map_of (pending s) k of
        Some DeleteDocument \<Rightarrow> handleDelete_settled r (settle k s)
      | _ \<Rightarrow> s)"
| "react s (ClickResolveFlag rid) = (if mounted s then setResolvingId (Some rid) s else s)"
| "react s (TypeNotes n) = (if mounted s then setResolutionNotes n s else s)"
| "react s ClickCancel =
     (if mounted s then setResolutionNotes [] (setResolvingId None s) else s)"
| "react s ClickConfirm = (if mounted s then handleResolveAlert s else s)"
| "react s (Resolved k r) =
     (case map_of (pending s) k of
        Some (ResolveAlert rid n) \<Rightarrow> handleResolveAlert_settled r (settle k s)
      | _ \<Rightarrow> s)"
| "react s ClickExport = (if mounted s then handleExportReport s else s)"
| "react s (GotReport k r now_iso) =
     (case map_of (pending s) k of
        Some (GetReport doc) \<Rightarrow> handleExportReport_settled doc r now_iso (settle k s)
      | _ \<Rightarrow> s)"

definition step :: "detail_page \<Rightarrow> event \<Rightarrow> detail_page" where
  "step s e = commit s (react s e)"

definition run :: "detail_page \<Rightarrow> event list \<Rightarrow> detail_page" where
  "run s es = foldl step s es"


text \<open>The view state of the page: its \<^verbatim>\<open>useState\<close> cells.\<close>

definition view ::
  "detail_page \<Rightarrow>
     document_detail option \<times> bool \<times> string \<times> bool \<times> string option \<times> string \<times> bool" where
  "view s =
     (document s, loading s, error s, retrying s, resolvingId s, resolutionNotes s,
      isExporting s)"

subsection \<open>Properties of the poller's state\<close>

text \<open>A live timer is the one the ref holds, set up with a period of 3000 ms.\<close>

definition timer_of_ref :: "detail_page \<Rightarrow> bool" where
  "timer_of_ref s =
     (case pollingInterval s of
        None \<Rightarrow> timers s = []
      | Some h \<Rightarrow> timers s = [] \<or> timers s = [(h, 3000)])"

text \<open>No timer is live unless the page is mounted and shows a document being processed.\<close>

definition idle_unless_polling :: "detail_page \<Rightarrow> bool" where
  "idle_unless_polling s =
     (if polling_status (doc_status s) \<and> mounted s then True else timers s = [])"

definition poller_inv :: "detail_page \<Rightarrow> bool" where
  "poller_inv s = (timer_of_ref s \<and> idle_unless_polling s)"

text \<open>
  The poller is armed exactly when the document shown is being processed: the ref then
  holds the one live timer, and is null with no timer otherwise.
\<close>

definition armed_iff_polling :: "detail_page \<Rightarrow> bool" where
  "armed_iff_polling s =
     (mounted s \<and>
      (if polling_status (doc_status s)
       then (case pollingInterval s of Some h \<Rightarrow> timers s = [(h, 3000)] | None \<Rightarrow> False)
       else pollingInterval s = None \<and> timers s = []))"

text \<open>The events that run a \<^verbatim>\<open>clearInterval\<close> without resetting the ref.\<close>

fun clears :: "detail_page \<Rightarrow> event \<Rightarrow> bool" where
  "clears s (GotDocument k (Inl err)) =
     (case map_of (pending s) k of Some (GetDocument b) \<Rightarrow> True | _ \<Rightarrow> False)"
| "clears s Unmount = mounted s"
| "clears s _ = False"

text \<open>The document an event puts into the view state, if any.\<close>

fun applies :: "detail_page \<Rightarrow> event \<Rightarrow> document_detail option" where
  "applies s (GotDocument k (Inr d)) =
     (case map_of (pending s) k of
        Some (GetDocument b) \<Rightarrow> if mounted s then Some d else None
      | _ \<Rightarrow> None)"
| "applies s _ = None"

text \<open>Every event but a failed fetch of the document and the teardown.\<close>

fun quiet :: "event \<Rightarrow> bool" where
  "quiet (GotDocument k (Inl err)) = False"
| "quiet Unmount = False"
| "quiet _ = True"

text \<open>A fetched document whose status is neither PROCESSING nor UPLOADED.\<close>

fun resets :: "event \<Rightarrow> bool" where
  "resets (GotDocument k (Inr d)) = (\<not> polling_status (Some (status d)))"
| "resets _ = False"

text \<open>The ref holds the handle of an interval that has been cleared.\<close>

definition stale_ref :: "detail_page \<Rightarrow> bool" where
  "stale_ref s = (pollingInterval s \<noteq> None \<and> timers s = [])"

text \<open>While the ref holds a handle, the document shown is being processed.\<close>

definition ref_implies_polling :: "detail_page \<Rightarrow> bool" where
  "ref_implies_polling s =
     (if pollingInterval s = None then True else polling_status (doc_status s))"

subsection \<open>The report's file name as the specification words it\<close>

text \<open>
  The specification names the file
  \<^verbatim>\<open>Audit-Report-<filename-without-extension>-<ISO-8601 date>.json\<close>. The file name
  without its extension is the name up to its last dot, and the whole name when it has none.
\<close>

definition strip_extension :: "string \<Rightarrow> string" where
  "strip_extension f =
     (if CHR ''.'' \<in> set f then rev (tl (dropWhile (\<lambda>c. c \<noteq> CHR ''.'') (rev f))) else f)"

definition spec_export_filename :: "document_detail \<Rightarrow> string \<Rightarrow> string" where
  "spec_export_filename doc iso_date =
     ''Audit-Report-'' @ strip_extension (original_filename doc) @ ''-'' @ iso_date @ ''.json''"

section \<open>The documents listing page\<close>

text \<open>
  \<^verbatim>\<open>DocumentsPage\<close>: the state cells \<^verbatim>\<open>documents\<close>, \<^verbatim>\<open>loading\<close>,
  \<^verbatim>\<open>error\<close>, \<^verbatim>\<open>filter\<close>, \<^verbatim>\<open>page\<close> and \<^verbatim>\<open>total\<close> (the three that
  share a name with another page or with a list function carry a prefix here), and the
  calls to \<^verbatim>\<open>listDocuments\<close> in flight. Page numbers and totals are integers.
\<close>

record document_item =
  item_id :: string
  item_filename :: string
  item_status :: string

record list_request =
  req_page :: int
  req_page_size :: int
  req_status :: "string option"

record list_response =
  resp_documents :: "document_item list"
  resp_total :: int

record documents_page =
  documents :: "document_item list"
  list_loading :: bool
  list_error :: string
  status_filter :: string
  page :: int
  total :: int
  list_pending :: "(nat \<times> list_request) list"
  list_next :: nat

text \<open>\<^verbatim>\<open>filter || undefined\<close>: the empty string selects no status.\<close>

definition loadDocuments :: "documents_page \<Rightarrow> documents_page" where
  "loadDocuments s =
     s\<lparr>list_loading := True,
       list_pending := list_pending s @
         [(list_next s,
           \<lparr>req_page = page s, req_page_size = 20,
            req_status = (if status_filter s = [] then None else Some (status_filter s))\<rparr>)],
       list_next := Suc (list_next s)\<rparr>"

definition loadDocuments_settled ::
  "api_error + list_response \<Rightarrow> documents_page \<Rightarrow> documents_page" where
  "loadDocuments_settled r s =
     (case r of
        Inr data \<Rightarrow> s\<lparr>documents := resp_documents data, total := resp_total data\<rparr>
      | Inl err \<Rightarrow> s\<lparr>list_error := message err\<rparr>)\<lparr>list_loading := False\<rparr>"

text \<open>\<^verbatim>\<open>Math.ceil(total / 20)\<close> on an integer total.\<close>

definition page_count :: "documents_page \<Rightarrow> int" where
  "page_count s = - ((- total s) div 20)"

text \<open>The pagination controls are rendered when there are documents and more than 20 in total.\<close>

definition controls_shown :: "documents_page \<Rightarrow> bool" where
  "controls_shown s = (documents s \<noteq> [] \<and> total s > 20)"

datatype list_event =
    Listed nat "api_error + list_response"
  | SelectFilter string
  | ClickPrevious
  | ClickNext

text \<open>
  The Previous button is disabled on page 1, the Next button once
  \<^verbatim>\<open>page >= Math.ceil(total / 20)\<close>.
\<close>

fun list_react :: "documents_page \<Rightarrow> list_event \<Rightarrow> documents_page" where
  "list_react s (Listed k r) =
     (case map_of (list_pending s) k of
        Some q \<Rightarrow>
          loadDocuments_settled r
            (s\<lparr>list_pending := filter (\<lambda>(k', q'). k' \<noteq> k) (list_pending s)\<rparr>)
      | None \<Rightarrow> s)"
| "list_react s (SelectFilter f) = s\<lparr>status_filter := f\<rparr>"
| "list_react s ClickPrevious =
     (if controls_shown s \<and> page s \<noteq> 1 then s\<lparr>page := max 1 (page s - 1)\<rparr> else s)"
| "list_react s ClickNext =
     (if controls_shown s \<and> \<not> page s \<ge> page_count s then s\<lparr>page := page s + 1\<rparr> else s)"

text \<open>The effect on \<^verbatim>\<open>[filter, page]\<close> loads the documents again when either has changed.\<close>

definition list_step :: "documents_page \<Rightarrow> list_event \<Rightarrow> documents_page" where
  "list_step s e =
     (let s' = list_react s e
      in if status_filter s' \<noteq> status_filter s \<or> page s' \<noteq> page s
         then loadDocuments s' else s')"

definition list_mount :: documents_page where
  "list_mount =
     loadDocuments
       \<lparr>documents = [], list_loading = True, list_error = [], status_filter = [],
        page = 1, total = 0, list_pending = [], list_next = 0\<rparr>"

definition list_run :: "documents_page \<Rightarrow> list_event list \<Rightarrow> documents_page" where
  "list_run s es = foldl list_step s es"

section \<open>The search page\<close>

record search_result =
  result_document_id :: string
  chunk_text :: string
  similarity_score :: real

record search_page =
  query :: string
  results :: "search_result list"
  search_loading :: bool
  searched :: bool
  search_pending :: "(nat \<times> string) list"
  search_next :: nat

definition handleSearch :: "search_page \<Rightarrow> search_page" where
  "handleSearch s =
     (if trim (query s) = [] then s
      else s\<lparr>search_loading := True, searched := True,
             search_pending := search_pending s @ [(search_next s, query s)],
             search_next := Suc (search_next s)\<rparr>)"

text \<open>A failed search is written to the console only.\<close>

definition handleSearch_settled ::
  "api_error + search_result list \<Rightarrow> search_page \<Rightarrow> search_page" where
  "handleSearch_settled r s =
     (case r of
        Inr data \<Rightarrow> s\<lparr>results := data\<rparr>
      | Inl err \<Rightarrow> s)\<lparr>search_loading := False\<rparr>"

datatype search_event =
    TypeQuery string
  | Submit
  | Found nat "api_error + search_result list"

fun search_step :: "search_page \<Rightarrow> search_event \<Rightarrow> search_page" where
  "search_step s (TypeQuery q) = s\<lparr>query := q\<rparr>"
| "search_step s Submit = handleSearch s"
| "search_step s (Found k r) =
     (case map_of (search_pending s) k of
        Some q \<Rightarrow>
          handleSearch_settled r
            (s\<lparr>search_pending := filter (\<lambda>(k', q'). k' \<noteq> k) (search_pending s)\<rparr>)
      | None \<Rightarrow> s)"

definition search_initial :: search_page where
  "search_initial =
     \<lparr>query = [], results = [], search_loading = False, searched = False,
      search_pending = [], search_next = 0\<rparr>"

definition search_run :: "search_page \<Rightarrow> search_event list \<Rightarrow> search_page" where
  "search_run s es = foldl search_step s es"

text \<open>
  The result cards the page renders, in the order of \<^verbatim>\<open>results.map\<close>: none before
  the first search and none while a search is loading.
\<close>

definition displayed :: "search_page \<Rightarrow> search_result list" where
  "displayed s = (if searched s \<and> \<not> search_loading s then results s else [])"

definition by_descending_score :: "search_result list \<Rightarrow> bool" where
  "by_descending_score rs = sorted_wrt (\<lambda>a b. similarity_score a \<ge> similarity_score b) rs"

section \<open>The alerts page\<close>

text \<open>
  \<^verbatim>\<open>AlertsPage\<close>. \<^verbatim>\<open>handleResolve\<close> filters the \<^verbatim>\<open>alerts\<close> of the render in
  which the button was clicked, so the call in flight carries them.
\<close>

record alert =
  alert_id :: string
  alert_document_id :: string
  risk_level :: string

datatype alerts_call =
    ListAlerts "string option" bool
  | ResolveAlertCall string string "alert list"

record alerts_page =
  alerts :: "alert list"
  alerts_loading :: bool
  alerts_error :: string
  level_filter :: string
  alerts_pending :: "(nat \<times> alerts_call) list"
  alerts_next :: nat

definition alerts_issue :: "alerts_call \<Rightarrow> alerts_page \<Rightarrow> alerts_page" where
  "alerts_issue c s =
     s\<lparr>alerts_pending := alerts_pending s @ [(alerts_next s, c)],
       alerts_next := Suc (alerts_next s)\<rparr>"

definition loadAlerts :: "alerts_page \<Rightarrow> alerts_page" where
  "loadAlerts s =
     alerts_issue
       (ListAlerts (if level_filter s = [] then None else Some (level_filter s)) False)
       (s\<lparr>alerts_loading := True\<rparr>)"

definition loadAlerts_settled :: "api_error + alert list \<Rightarrow> alerts_page \<Rightarrow> alerts_page" where
  "loadAlerts_settled r s =
     (case r of
        Inr data \<Rightarrow> s\<lparr>alerts := data\<rparr>
      | Inl err \<Rightarrow> s\<lparr>alerts_error := message err\<rparr>)\<lparr>alerts_loading := False\<rparr>"

definition handleResolve :: "string \<Rightarrow> alerts_page \<Rightarrow> alerts_page" where
  "handleResolve i s =
     alerts_issue (ResolveAlertCall i ''Manually reviewed and resolved.'' (alerts s)) s"

definition handleResolve_settled ::
  "string \<Rightarrow> alert list \<Rightarrow> api_error + unit \<Rightarrow> alerts_page \<Rightarrow> alerts_page" where
  "handleResolve_settled i shown r s =
     (case r of
        Inr _ \<Rightarrow> s\<lparr>alerts := filter (\<lambda>a. alert_id a \<noteq> i) shown\<rparr>
      | Inl err \<Rightarrow> s)"

datatype alerts_event =
    ClickDismiss string
  | ClickResolve string
  | SelectLevel string
  | AlertsListed nat "api_error + alert list"
  | AlertResolved nat "api_error + unit"

definition alerts_settle :: "nat \<Rightarrow> alerts_page \<Rightarrow> alerts_page" where
  "alerts_settle k s = s\<lparr>alerts_pending := filter (\<lambda>(k', c). k' \<noteq> k) (alerts_pending s)\<rparr>"

fun alerts_step :: "alerts_page \<Rightarrow> alerts_event \<Rightarrow> alerts_page" where
  "alerts_step s (ClickDismiss i) = handleResolve i s"
| "alerts_step s (ClickResolve i) = handleResolve i s"
| "alerts_step s (SelectLevel f) =
     (if f \<noteq> level_filter s then loadAlerts (s\<lparr>level_filter := f\<rparr>) else s)"
| "alerts_step s (AlertsListed k r) =
     (case map_of (alerts_pending s) k of
        Some (ListAlerts l u) \<Rightarrow> loadAlerts_settled r (alerts_settle k s)
      | _ \<Rightarrow> s)"
| "alerts_step s (AlertResolved k r) =
     (case map_of (alerts_pending s) k of
        Some (ResolveAlertCall i n shown) \<Rightarrow> handleResolve_settled i shown r (alerts_settle k s)
      | _ \<Rightarrow> s)"

definition alerts_mount :: alerts_page where
  "alerts_mount =
     loadAlerts
       \<lparr>alerts = [], alerts_loading = True, alerts_error = [], level_filter = [],
        alerts_pending = [], alerts_next = 0\<rparr>"

definition alerts_run :: "alerts_page \<Rightarrow> alerts_event list \<Rightarrow> alerts_page" where
  "alerts_run s es = foldl alerts_step s es"

text \<open>The notes every resolve call in flight carries are the page's fixed text.\<close>

fun fixed_notes :: "nat \<times> alerts_call \<Rightarrow> bool" where
  "fixed_notes (k, ResolveAlertCall i n shown) = (n = ''Manually reviewed and resolved.'')"
| "fixed_notes (k, ListAlerts l u) = True"

section \<open>Example values\<close>

definition doc_processing :: document_detail where
  "doc_processing =
     \<lparr>original_filename = ''report.v2.pdf'', status = ''PROCESSING'', extractions = [],
      risk_flags = [], validations = []\<rparr>"

definition doc_completed :: document_detail where
  "doc_completed =
     \<lparr>original_filename = ''report.v2.pdf'', status = ''COMPLETED'',
      extractions = [''ACME Corp 1200.00 USD''],
      risk_flags = [\<lparr>flag_id = ''r1'', is_resolved = False, resolution_notes = None\<rparr>],
      validations = [''balance_check'']\<rparr>"

definition doc_failed :: document_detail where
  "doc_failed =
     \<lparr>original_filename = ''report.v2.pdf'', status = ''FAILED'', extractions = [],
      risk_flags = [\<lparr>flag_id = ''r1'', is_resolved = False, resolution_notes = None\<rparr>],
      validations = []\<rparr>"

definition network_error :: api_error where
  "network_error = \<lparr>kind = TransportError, message = ''Network Error''\<rparr>"

definition not_found :: api_error where
  "not_found = \<lparr>kind = NotFoundError, message = ''Document not found''\<rparr>"

text \<open>
  The page of document d1 polling: the first fetch has returned a document in processing,
  the interval has fired two, three or four times, and the fetches it started are in flight.
\<close>

definition two_polls_in_flight :: detail_page where
  "two_polls_in_flight =
     run (mount ''d1'') [GotDocument 0 (Inr doc_processing), Tick 1, Tick 1]"

definition three_polls_in_flight :: detail_page where
  "three_polls_in_flight =
     run (mount ''d1'') [GotDocument 0 (Inr doc_processing), Tick 1, Tick 1, Tick 1]"

definition four_polls_in_flight :: detail_page where
  "four_polls_in_flight =
     run (mount ''d1'') [GotDocument 0 (Inr doc_processing), Tick 1, Tick 1, Tick 1, Tick 1]"

definition full_page :: list_response where
  "full_page =
     \<lparr>resp_documents =
        replicate 20 \<lparr>item_id = ''d'', item_filename = ''a.pdf'', item_status = ''COMPLETED''\<rparr>,
      resp_total = 45\<rparr>"

definition hit :: "real \<Rightarrow> search_result" where
  "hit x = \<lparr>result_document_id = ''d1'', chunk_text = ''net income'', similarity_score = x\<rparr>"

section \<open>How the handlers act on the poller's state\<close>

text \<open>
  The timers, the ref, the mounted flag, the document and the calls in flight, read off
  the state after each setter and each primitive of the environment.
\<close>

lemmas setter_defs = logged_def setDocument_def setLoading_def setError_def setRetrying_def
  setResolvingId_def setResolutionNotes_def setIsExporting_def

lemma setters_timers [simp]:
  "timers (setDocument d s) = timers s" "timers (setLoading b s) = timers s"
  "timers (setError m s) = timers s" "timers (setRetrying b s) = timers s"
  "timers (setResolvingId r s) = timers s" "timers (setResolutionNotes n s) = timers s"
  "timers (setIsExporting b s) = timers s"
  by (simp_all add: setter_defs)

lemma setters_ref [simp]:
  "pollingInterval (setDocument d s) = pollingInterval s"
  "pollingInterval (setLoading b s) = pollingInterval s"
  "pollingInterval (setError m s) = pollingInterval s"
  "pollingInterval (setRetrying b s) = pollingInterval s"
  "pollingInterval (setResolvingId r s) = pollingInterval s"
  "pollingInterval (setResolutionNotes n s) = pollingInterval s"
  "pollingInterval (setIsExporting b s) = pollingInterval s"
  by (simp_all add: setter_defs)

lemma setters_mounted [simp]:
  "mounted (setDocument d s) = mounted s" "mounted (setLoading b s) = mounted s"
  "mounted (setError m s) = mounted s" "mounted (setRetrying b s) = mounted s"
  "mounted (setResolvingId r s) = mounted s" "mounted (setResolutionNotes n s) = mounted s"
  "mounted (setIsExporting b s) = mounted s"
  by (simp_all add: setter_defs)

lemma setters_document [simp]:
  "document (setDocument d s) = (if mounted s then Some d else document s)"
  "document (setLoading b s) = document s"
  "document (setError m s) = document s" "document (setRetrying b s) = document s"
  "document (setResolvingId r s) = document s"
  "document (setResolutionNotes n s) = document s"
  "document (setIsExporting b s) = document s"
  by (simp_all add: setter_defs)

lemma setters_pending [simp]:
  "pending (setDocument d s) = pending s" "pending (setLoading b s) = pending s"
  "pending (setError m s) = pending s" "pending (setRetrying b s) = pending s"
  "pending (setResolvingId r s) = pending s" "pending (setResolutionNotes n s) = pending s"
  "pending (setIsExporting b s) = pending s"
  by (simp_all add: setter_defs)

lemma issue_proj [simp]:
  "timers (issue r s) = timers s" "pollingInterval (issue r s) = pollingInterval s"
  "mounted (issue r s) = mounted s" "document (issue r s) = document s"
  by (simp_all add: issue_def)

lemma settle_proj [simp]:
  "timers (settle k s) = timers s" "pollingInterval (settle k s) = pollingInterval s"
  "mounted (settle k s) = mounted s" "document (settle k s) = document s"
  by (simp_all add: settle_def)

lemma clearInterval_proj [simp]:
  "timers (clearInterval h s) = filter (\<lambda>(h', p). h' \<noteq> h) (timers s)"
  "pollingInterval (clearInterval h s) = pollingInterval s"
  "mounted (clearInterval h s) = mounted s" "document (clearInterval h s) = document s"
  by (simp_all add: clearInterval_def)

lemma clear_current_proj [simp]:
  "pollingInterval (clear_current s) = pollingInterval s"
  "mounted (clear_current s) = mounted s" "document (clear_current s) = document s"
  by (simp_all add: clear_current_def split: option.splits)

lemma loadDocument_proj [simp]:
  "timers (loadDocument b s) = timers s" "pollingInterval (loadDocument b s) = pollingInterval s"
  "mounted (loadDocument b s) = mounted s" "document (loadDocument b s) = document s"
  by (simp_all add: loadDocument_def)

lemmas handler_defs = loadDocument_settled_def handleExportReport_def handleExportReport_settled_def
  handleResolveAlert_def handleResolveAlert_settled_def handleRetry_def handleRetry_settled_def
  handleDelete_def handleDelete_settled_def unmount_def

text \<open>What one event does to the ref, the mounted flag, the timers and the document.\<close>

lemma react_ref: "pollingInterval (react s e) = pollingInterval s"
  by (cases e) (simp_all add: handler_defs Let_def split: option.splits request.splits sum.splits)

lemma react_mounted: "mounted (react s e) = (mounted s \<and> e \<noteq> Unmount)"
  by (cases e) (simp_all add: handler_defs Let_def split: option.splits request.splits sum.splits)

lemma react_timers:
  "timers (react s e) = (if clears s e then timers (clear_current s) else timers s)"
  by (cases e) (simp_all add: handler_defs Let_def clear_current_def split: option.splits request.splits sum.splits)

lemma react_document:
  "document (react s e) = (case applies s e of Some d \<Rightarrow> Some d | None \<Rightarrow> document s)"
  by (cases e) (simp_all add: handler_defs Let_def split: option.splits request.splits sum.splits)

lemma polling_effect_proj [simp]:
  "mounted (polling_effect s) = mounted s" "document (polling_effect s) = document s"
  by (simp_all add: polling_effect_def setInterval_def clearInterval_def split: option.splits)

lemma commit_proj [simp]:
  "mounted (commit old s) = mounted s" "document (commit old s) = document s"
  by (simp_all add: commit_def)

lemma doc_status_commit [simp]: "doc_status (commit old s) = doc_status s"
  by (simp add: doc_status_def)

lemma doc_status_polling_effect [simp]: "doc_status (polling_effect s) = doc_status s"
  by (simp add: doc_status_def)

lemma pending_proj [simp]:
  "pending (clearInterval h s) = pending s" "pending (clear_current s) = pending s"
  "pending (polling_effect s) = pending s" "pending (commit old s) = pending s"
  "pending (settle k s) = filter (\<lambda>(k', r). k' \<noteq> k) (pending s)"
  by (simp_all add: clearInterval_def clear_current_def polling_effect_def setInterval_def
        commit_def settle_def split: option.splits)

lemma mounted_step: "mounted (step s e) = (mounted s \<and> e \<noteq> Unmount)"
  by (simp add: step_def react_mounted)

lemma step_eq_react: "applies s e = None \<Longrightarrow> step s e = react s e"
  by (simp add: step_def commit_def doc_status_def react_document)

lemma applies_Some: "applies s e = Some d \<Longrightarrow> mounted s \<and> e \<noteq> Unmount"
  by (cases "(s, e)" rule: applies.cases)
     (auto split: option.splits request.splits if_splits)

subsection \<open>At most the timer of the ref is live, and only while a document is processed\<close>

lemma timers_clear_current: "timer_of_ref s \<Longrightarrow> timers (clear_current s) = []"
  by (auto simp: timer_of_ref_def clear_current_def split: option.splits)

lemma timer_of_ref_react: "timer_of_ref s \<Longrightarrow> timer_of_ref (react s e)"
  using timers_clear_current [of s]
  by (auto simp: timer_of_ref_def react_ref react_timers split: option.splits)

lemma idle_react:
  assumes "timer_of_ref s" and "idle_unless_polling s"
    and "doc_status (react s e) = doc_status s"
  shows "idle_unless_polling (react s e)"
proof (cases "e = Unmount \<and> mounted s")
  case True
  then show ?thesis
    using timers_clear_current [OF assms(1)]
    by (simp add: idle_unless_polling_def react_timers react_mounted del: react.simps)
next
  case False
  then have m: "mounted (react s e) = mounted s"
    by (auto simp: react_mounted)
  show ?thesis
    using assms timers_clear_current [OF assms(1)] m
    by (auto simp: idle_unless_polling_def react_timers split: if_splits)
qed

lemma poller_inv_polling_effect:
  "timer_of_ref s \<Longrightarrow> mounted s \<Longrightarrow> poller_inv (polling_effect s)"
  by (auto simp: poller_inv_def timer_of_ref_def idle_unless_polling_def polling_effect_def
        setInterval_def clearInterval_def doc_status_def split: option.splits)

lemma status_change_mounted:
  "doc_status (react s e) \<noteq> doc_status s \<Longrightarrow> mounted (react s e)"
  using applies_Some [of s e]
  by (auto simp: doc_status_def react_document react_mounted split: option.splits)

lemma poller_inv_step: "poller_inv s \<Longrightarrow> poller_inv (step s e)"
proof -
  assume inv: "poller_inv s"
  then have t: "timer_of_ref (react s e)"
    by (simp add: poller_inv_def timer_of_ref_react)
  show ?thesis
  proof (cases "doc_status (react s e) = doc_status s")
    case True
    with inv t show ?thesis
      by (simp add: step_def commit_def poller_inv_def idle_react)
  next
    case False
    with t show ?thesis
      by (simp add: step_def commit_def status_change_mounted poller_inv_polling_effect)
  qed
qed

lemma polling_effect_idle:
  "document s = None \<Longrightarrow> pollingInterval s = None \<Longrightarrow> polling_effect s = s"
  by (simp add: polling_effect_def doc_status_def polling_status_def)

lemma initial_proj [simp]:
  "document (initial i) = None" "pollingInterval (initial i) = None" "timers (initial i) = []"
  "mounted (initial i)" "pending (initial i) = []" "next_request (initial i) = 0"
  by (simp_all add: initial_def)

lemma mount_eq: "mount i = (if i \<noteq> [] then loadDocument True (initial i) else initial i)"
  by (simp add: mount_def polling_effect_idle)

lemma mount_proj [simp]:
  "document (mount i) = None" "pollingInterval (mount i) = None" "timers (mount i) = []"
  "mounted (mount i)"
  by (simp_all add: mount_eq)

lemma poller_inv_mount: "poller_inv (mount i)"
  by (simp add: poller_inv_def timer_of_ref_def idle_unless_polling_def)

lemma poller_inv_run: "poller_inv s \<Longrightarrow> poller_inv (run s es)"
  unfolding run_def by (induction es arbitrary: s) (simp_all add: poller_inv_step)

subsection \<open>The poller is armed exactly while a document is processed, until a fetch fails\<close>

lemma quiet_not_clears: "quiet e \<Longrightarrow> \<not> clears s e"
  by (cases "(s, e)" rule: clears.cases) simp_all

lemma quiet_not_Unmount: "quiet e \<Longrightarrow> e \<noteq> Unmount"
  by auto

lemma armed_polling_effect:
  "mounted s \<Longrightarrow>
   (case pollingInterval s of Some h \<Rightarrow> timers s = [(h, 3000)] | None \<Rightarrow> timers s = []) \<Longrightarrow>
   armed_iff_polling (polling_effect s)"
  by (auto simp: armed_iff_polling_def polling_effect_def setInterval_def clearInterval_def
        doc_status_def split: option.splits)

lemma armed_in_sync:
  "armed_iff_polling s \<Longrightarrow>
   (case pollingInterval s of Some h \<Rightarrow> timers s = [(h, 3000)] | None \<Rightarrow> timers s = [])"
  by (auto simp: armed_iff_polling_def split: option.splits if_splits)

lemma armed_step:
  assumes "armed_iff_polling s" and "quiet e"
  shows "armed_iff_polling (step s e)"
proof -
  have r: "timers (react s e) = timers s" "pollingInterval (react s e) = pollingInterval s"
    "mounted (react s e)"
    using assms quiet_not_clears [OF assms(2), of s] quiet_not_Unmount [OF assms(2)]
    by (simp_all add: react_timers react_ref react_mounted armed_iff_polling_def)
  show ?thesis
  proof (cases "doc_status (react s e) = doc_status s")
    case True
    with assms(1) r show ?thesis
      by (auto simp: step_def commit_def armed_iff_polling_def split: option.splits)
  next
    case False
    have "armed_iff_polling (polling_effect (react s e))"
      using armed_in_sync [OF assms(1)] r
      by (intro armed_polling_effect) (simp_all split: option.splits)
    with False r show ?thesis
      by (simp add: step_def commit_def)
  qed
qed

lemma armed_mount: "armed_iff_polling (mount i)"
  by (simp add: armed_iff_polling_def doc_status_def polling_status_def)

lemma armed_run: "armed_iff_polling s \<Longrightarrow> list_all quiet es \<Longrightarrow> armed_iff_polling (run s es)"
  unfolding run_def by (induction es arbitrary: s) (simp_all add: armed_step)

lemma doc_status_applied:
  assumes "map_of (pending s) k = Some (GetDocument b)" and "mounted s"
  shows "doc_status (step s (GotDocument k (Inr d))) = Some (status d)"
  using assms by (simp add: step_def doc_status_def react_document del: react.simps)

subsection \<open>A cleared handle stays in the ref\<close>

lemma applies_resets:
  "applies s e = Some d \<Longrightarrow> \<not> resets e \<Longrightarrow> polling_status (Some (status d))"
  by (cases "(s, e)" rule: applies.cases)
     (auto split: option.splits request.splits if_splits)

lemma stale_react: "stale_ref s \<Longrightarrow> stale_ref (react s e)"
  by (auto simp: stale_ref_def react_ref react_timers clear_current_def split: option.splits)

lemma stale_step:
  assumes "stale_ref s" and "\<not> resets e"
  shows "stale_ref (step s e) \<and> pollingInterval (step s e) = pollingInterval s"
proof (cases "mounted (react s e) \<and> doc_status (react s e) \<noteq> doc_status s")
  case False
  then have "step s e = react s e"
    by (auto simp: step_def commit_def)
  with assms(1) show ?thesis
    by (simp add: stale_react react_ref)
next
  case True
  then obtain d where d: "applies s e = Some d"
    by (auto simp: doc_status_def react_document split: option.splits)
  then have "doc_status (react s e) = Some (status d)"
    by (simp add: doc_status_def react_document)
  with applies_resets [OF d assms(2)] have "polling_status (doc_status (react s e))"
    by simp
  moreover have "pollingInterval (react s e) \<noteq> None"
    using assms(1) by (simp add: stale_ref_def react_ref)
  ultimately have "polling_effect (react s e) = react s e"
    by (auto simp: polling_effect_def)
  with True have "step s e = react s e"
    by (simp add: step_def commit_def)
  with assms(1) show ?thesis
    by (simp add: stale_react react_ref)
qed

lemma stale_run:
  "stale_ref s \<Longrightarrow> list_all (\<lambda>e. \<not> resets e) es \<Longrightarrow>
   stale_ref (run s es) \<and> pollingInterval (run s es) = pollingInterval s"
  unfolding run_def
proof (induction es arbitrary: s)
  case Nil
  then show ?case by simp
next
  case (Cons e es)
  then have "stale_ref (step s e) \<and> pollingInterval (step s e) = pollingInterval s"
    by (simp add: stale_step)
  with Cons show ?case by simp
qed

lemma stale_after_failure:
  assumes "poller_inv s" and "pollingInterval s \<noteq> None"
    and "map_of (pending s) k = Some (GetDocument b)"
  shows "stale_ref (step s (GotDocument k (Inl err)))
         \<and> pollingInterval (step s (GotDocument k (Inl err))) = pollingInterval s"
proof -
  let ?e = "GotDocument k (Inl err)"
  have "applies s ?e = None" by simp
  then have "doc_status (react s ?e) = doc_status s"
    by (simp add: doc_status_def react_document del: react.simps)
  then have eq: "step s ?e = react s ?e"
    by (simp add: step_def commit_def del: react.simps)
  have "clears s ?e" using assms(3) by simp
  then have "timers (react s ?e) = []"
    using assms(1) by (simp add: react_timers timers_clear_current poller_inv_def del: react.simps)
  with eq assms(2) show ?thesis
    by (simp add: stale_ref_def react_ref del: react.simps)
qed

text \<open>A fetched document with another status resets the ref, and the poller is in step again.\<close>

lemma ref_implies_polling_effect: "ref_implies_polling (polling_effect s)"
  by (auto simp: ref_implies_polling_def polling_effect_def setInterval_def clearInterval_def
        doc_status_def split: option.splits)

lemma ref_implies_polling_step:
  assumes "ref_implies_polling s"
  shows "ref_implies_polling (step s e)"
proof (cases "doc_status (react s e) = doc_status s")
  case True
  then have "step s e = react s e"
    by (simp add: step_def commit_def)
  with assms True show ?thesis
    by (simp add: ref_implies_polling_def react_ref)
next
  case False
  then have "step s e = polling_effect (react s e)"
    by (simp add: step_def commit_def status_change_mounted)
  then show ?thesis
    by (simp add: ref_implies_polling_effect)
qed

lemma ref_implies_polling_run: "ref_implies_polling s \<Longrightarrow> ref_implies_polling (run s es)"
  unfolding run_def by (induction es arbitrary: s) (simp_all add: ref_implies_polling_step)

lemma ref_implies_polling_mount: "ref_implies_polling (mount i)"
  by (simp add: ref_implies_polling_def)

lemma reset_by_terminal_result:
  assumes "mounted s" and "pollingInterval s \<noteq> None" and "timers s = []"
    and "polling_status (doc_status s)"
    and "map_of (pending s) k = Some (GetDocument b)"
    and "\<not> polling_status (Some (status d))"
  shows "pollingInterval (step s (GotDocument k (Inr d))) = None \<and>
         timers (step s (GotDocument k (Inr d))) = [] \<and>
         armed_iff_polling (step s (GotDocument k (Inr d)))"
proof -
  let ?e = "GotDocument k (Inr d)"
  let ?r = "react s ?e"
  have st: "doc_status ?r = Some (status d)"
    using assms(1,5) by (simp add: doc_status_def react_document del: react.simps)
  have m: "mounted ?r"
    using assms(1) by (simp add: react_mounted del: react.simps)
  have t: "timers ?r = []"
    using assms(3) by (simp add: react_timers del: react.simps)
  have ch: "doc_status ?r \<noteq> doc_status s"
    using st assms(4,6) by auto
  then have eq: "step s ?e = polling_effect ?r"
    using m by (simp add: step_def commit_def del: react.simps)
  have "pollingInterval (polling_effect ?r) = None \<and> timers (polling_effect ?r) = []"
    using st t assms(6)
    by (auto simp: polling_effect_def clearInterval_def split: option.splits)
  moreover have "mounted (polling_effect ?r)" "doc_status (polling_effect ?r) = Some (status d)"
    using m st by simp_all
  ultimately show ?thesis
    using assms(6) unfolding eq by (simp add: armed_iff_polling_def)
qed

subsection \<open>An unmounted page keeps its view state\<close>

lemma view_unmounted_setters [simp]:
  "\<not> mounted s \<Longrightarrow> view (setDocument d s) = view s"
  "\<not> mounted s \<Longrightarrow> view (setLoading b s) = view s"
  "\<not> mounted s \<Longrightarrow> view (setError m s) = view s"
  "\<not> mounted s \<Longrightarrow> view (setRetrying b s) = view s"
  "\<not> mounted s \<Longrightarrow> view (setResolvingId r s) = view s"
  "\<not> mounted s \<Longrightarrow> view (setResolutionNotes n s) = view s"
  "\<not> mounted s \<Longrightarrow> view (setIsExporting b s) = view s"
  by (simp_all add: view_def setter_defs)

lemma view_env [simp]:
  "view (issue r s) = view s" "view (settle k s) = view s"
  "view (clearInterval h s) = view s" "view (clear_current s) = view s"
  "view (s\<lparr>pushed := p\<rparr>) = view s" "view (s\<lparr>downloads := dl\<rparr>) = view s"
  by (simp_all add: view_def issue_def settle_def clearInterval_def clear_current_def
        split: option.splits)

lemma view_react_unmounted: "\<not> mounted s \<Longrightarrow> view (react s e) = view s"
  by (cases e)
     (simp_all add: handler_defs loadDocument_def Let_def
        split: option.splits request.splits sum.splits)

lemma view_step_unmounted: "\<not> mounted s \<Longrightarrow> view (step s e) = view s"
  by (simp add: step_def commit_def react_mounted view_react_unmounted)

lemma unmounted_run: "\<not> mounted s \<Longrightarrow> \<not> mounted (run s es) \<and> view (run s es) = view s"
  unfolding run_def
  by (induction es arbitrary: s) (simp_all add: mounted_step view_step_unmounted)

subsection \<open>Calls in flight\<close>

lemma map_of_settled: "a \<noteq> b \<Longrightarrow> map_of (filter (\<lambda>(k', r). k' \<noteq> b) xs) a = map_of xs a"
  by (induction xs) auto

lemma pending_after_fetch:
  "a \<noteq> b \<Longrightarrow> map_of (pending (step s (GotDocument b r))) a = map_of (pending s) a"
  by (cases r)
     (simp_all add: step_def loadDocument_settled_def Let_def map_of_settled
        split: option.splits request.splits)

section \<open>The listing, search and alerts pages\<close>

lemma page_loadDocuments [simp]: "page (loadDocuments s) = page s"
  by (simp add: loadDocuments_def)

lemma page_list_step:
  "page (list_step s e) = page (list_react s e)"
  by (simp add: list_step_def Let_def)

lemma page_Listed: "page (list_react s (Listed k r)) = page s"
  by (cases r) (simp_all add: loadDocuments_settled_def split: option.splits)

lemma page_ge_1_step: "1 \<le> page s \<Longrightarrow> 1 \<le> page (list_step s e)"
  by (cases e) (simp_all add: page_list_step page_Listed del: list_react.simps(1))

lemma page_ge_1_run: "1 \<le> page s \<Longrightarrow> 1 \<le> page (list_run s es)"
  unfolding list_run_def by (induction es arbitrary: s) (simp_all add: page_ge_1_step)

lemma searched_step:
  "searched s \<or> search_pending s = [] \<Longrightarrow>
   searched (search_step s e) \<or> search_pending (search_step s e) = []"
  by (cases e)
     (auto simp: handleSearch_def handleSearch_settled_def split: option.splits sum.splits)

lemma searched_run:
  "searched s \<or> search_pending s = [] \<Longrightarrow>
   searched (search_run s es) \<or> search_pending (search_run s es) = []"
  unfolding search_run_def
proof (induction es arbitrary: s)
  case Nil
  then show ?case by simp
next
  case (Cons e es)
  from searched_step [OF Cons.prems, of e] show ?case
    by (simp add: Cons.IH)
qed

lemma displayed_found:
  assumes "map_of (search_pending s) k = Some q" and "searched s"
  shows "displayed (search_step s (Found k (Inr rs))) = rs"
  using assms by (simp add: displayed_def handleSearch_settled_def)

lemma fixed_notes_not_blank: "trim ''Manually reviewed and resolved.'' \<noteq> []"
  by (simp add: trim_def is_js_whitespace_def)

lemma fixed_notes_step:
  "list_all fixed_notes (alerts_pending s) \<Longrightarrow>
   list_all fixed_notes (alerts_pending (alerts_step s e))"
  by (cases e)
     (auto simp: handleResolve_def handleResolve_settled_def loadAlerts_def loadAlerts_settled_def
        alerts_issue_def alerts_settle_def list_all_iff
        split: option.splits sum.splits alerts_call.splits)

lemma fixed_notes_run:
  "list_all fixed_notes (alerts_pending s) \<Longrightarrow>
   list_all fixed_notes (alerts_pending (alerts_run s es))"
  unfolding alerts_run_def by (induction es arbitrary: s) (simp_all add: fixed_notes_step)

section \<open>The file name of the export\<close>

text \<open>
  The first piece of a split is the text before the first separator. For a file name with
  at most one dot that is the name without its extension, and the page then names the
  report as the specification does.
\<close>

lemma js_split_not_Nil: "js_split c f \<noteq> []"
  by (induction f) (auto split: list.splits)

lemma first_piece_split: "first_piece (js_split c f) = takeWhile (\<lambda>x. x \<noteq> c) f"
  using js_split_not_Nil [of c]
  by (induction f) (auto simp: first_piece_def split: list.splits)

lemma strip_one_dot:
  assumes "count_list f (CHR ''.'') \<le> 1"
  shows "strip_extension f = takeWhile (\<lambda>x. x \<noteq> CHR ''.'') f"
proof (cases "CHR ''.'' \<in> set f")
  case False
  then have "takeWhile (\<lambda>x. x \<noteq> CHR ''.'') f = f"
    by (auto simp: takeWhile_eq_all_conv)
  then show ?thesis
    unfolding strip_extension_def using False by (simp only: if_False)
next
  case True
  then obtain a b where f: "f = a @ CHR ''.'' # b" and a: "CHR ''.'' \<notin> set a"
    by (meson split_list_first)
  with assms have b: "CHR ''.'' \<notin> set b"
    by (auto simp: count_list_0_iff)
  have "dropWhile (\<lambda>c. c \<noteq> CHR ''.'') (rev b @ CHR ''.'' # rev a) = CHR ''.'' # rev a"
    using b by (auto simp: dropWhile_append3)
  moreover have "takeWhile (\<lambda>x. x \<noteq> CHR ''.'') (a @ CHR ''.'' # b) = a"
    using a by (auto simp: takeWhile_tail)
  ultimately show ?thesis
    using True f by (simp add: strip_extension_def)
qed

lemma export_filename_one_dot:
  "count_list (original_filename doc) (CHR ''.'') \<le> 1 \<Longrightarrow>
   export_filename doc now_iso
     = spec_export_filename doc (first_piece (js_split CHR ''T'' now_iso))"
  by (simp add: export_filename_def spec_export_filename_def first_piece_split strip_one_dot)

section \<open>Order of fetch results (C1)\<close>

text \<open>
  C1, as the page has it. Two fetches of the document are in flight, A issued before B
  (fetch \<open>a\<close> has the smaller number). When B's result arrives first and A's after it, the
  document shown is A's: \<^verbatim>\<open>loadDocument\<close> calls \<^verbatim>\<open>setDocument(data)\<close> on
  every arrival and carries no sequence number, so the result that arrives last is the one
  applied.
\<close>

theorem last_arrived_fetch_wins:
  assumes "mounted s"
    and "map_of (pending s) a = Some (GetDocument sa)"
    and "map_of (pending s) b = Some (GetDocument sb)"
    and "a < b"
  shows "document (step (step s (GotDocument b (Inr dB))) (GotDocument a (Inr dA))) = Some dA"
proof -
  let ?s1 = "step s (GotDocument b (Inr dB))"
  have "mounted ?s1"
    using assms(1) by (simp add: mounted_step)
  moreover have "map_of (pending ?s1) a = Some (GetDocument sa)"
    using assms(2,4) by (simp add: pending_after_fetch)
  ultimately show ?thesis
    by (simp add: step_def react_document del: react.simps)
qed

text \<open>
  The claim that the applied state equals B's result fails for fetches 1 and 2 of a polling
  page: B returns the completed document, A the document still in processing, and the page
  ends up showing the document in processing.
\<close>

theorem stale_fetch_overwrites_counterexample:
  "map_of (pending two_polls_in_flight) 1 = Some (GetDocument False) \<and>
   map_of (pending two_polls_in_flight) 2 = Some (GetDocument False) \<and>
   document (run two_polls_in_flight
       [GotDocument 2 (Inr doc_completed), GotDocument 1 (Inr doc_processing)])
     = Some doc_processing \<and>
   document (run two_polls_in_flight
       [GotDocument 2 (Inr doc_completed), GotDocument 1 (Inr doc_processing)])
     \<noteq> Some doc_completed"
  by code_simp

theorem last_arrived_fetch_wins_witness:
  "mounted two_polls_in_flight \<and>
   map_of (pending two_polls_in_flight) 1 = Some (GetDocument False) \<and>
   map_of (pending two_polls_in_flight) 2 = Some (GetDocument False) \<and>
   (1::nat) < 2 \<and>
   document (step (step two_polls_in_flight (GotDocument 2 (Inr doc_completed)))
       (GotDocument 1 (Inr doc_processing))) = Some doc_processing"
proof -
  have m: "mounted two_polls_in_flight" by code_simp
  have a: "map_of (pending two_polls_in_flight) 1 = Some (GetDocument False)" by code_simp
  have b: "map_of (pending two_polls_in_flight) 2 = Some (GetDocument False)" by code_simp
  have l: "(1::nat) < 2" by simp
  from last_arrived_fetch_wins [OF m a b l, of doc_completed doc_processing] m a b l
  show ?thesis by simp
qed

section \<open>The poller after a fetch (C2)\<close>

text \<open>
  C2, as the page has it. Right after a fetched document has been applied on a page that
  was mounted for document \<open>i\<close> and has seen the events \<open>es\<close>: if its status is neither
  PROCESSING nor UPLOADED (so for COMPLETED and FAILED) no timer is live; if its status is
  PROCESSING or UPLOADED at most one timer is live, and when no fetch of the document has
  failed and the page has not been torn down, exactly one is, the one the ref holds, with a
  period of 3000 ms.
\<close>

theorem poller_after_fetch:
  assumes "s = run (mount i) es"
    and "map_of (pending s) k = Some (GetDocument b)"
    and "s' = step s (GotDocument k (Inr d))"
  shows "if polling_status (Some (status d))
         then (if list_all quiet es
               then (case pollingInterval s' of
                       Some h \<Rightarrow> timers s' = [(h, 3000)]
                     | None \<Rightarrow> False)
               else length (timers s') \<le> 1)
         else timers s' = []"
proof -
  have inv: "poller_inv s'"
    using assms(1,3) by (simp add: poller_inv_mount poller_inv_run poller_inv_step)
  have st: "mounted s \<Longrightarrow> doc_status s' = Some (status d)"
    using assms(2,3) by (simp add: doc_status_applied)
  have m: "mounted s' = mounted s"
    using assms(3) by (simp add: mounted_step)
  have c1: "\<not> polling_status (Some (status d)) \<Longrightarrow> timers s' = []"
    using inv st m by (auto simp: poller_inv_def idle_unless_polling_def split: if_splits)
  have c2: "length (timers s') \<le> 1"
    using inv by (auto simp: poller_inv_def timer_of_ref_def split: option.splits)
  have c3: "case pollingInterval s' of Some h \<Rightarrow> timers s' = [(h, 3000)] | None \<Rightarrow> False"
    if h: "polling_status (Some (status d))" "list_all quiet es"
  proof -
    have a: "armed_iff_polling s"
      using assms(1) h(2) by (simp add: armed_mount armed_run)
    then have "armed_iff_polling s'"
      using assms(3) by (simp add: armed_step)
    moreover have "doc_status s' = Some (status d)"
      using a st by (simp add: armed_iff_polling_def)
    ultimately show ?thesis
      using h(1) by (simp add: armed_iff_polling_def)
  qed
  from c1 c2 c3 show ?thesis by simp
qed

text \<open>
  After a failed fetch the invariant of the claim is lost: fetch 1 fails, which clears the
  interval, and fetch 2 then returns a document in processing with no timer live.
\<close>

theorem no_timer_after_failure_counterexample:
  "map_of (pending (step two_polls_in_flight (GotDocument 1 (Inl network_error)))) 2
     = Some (GetDocument False) \<and>
   document (run two_polls_in_flight
       [GotDocument 1 (Inl network_error), GotDocument 2 (Inr doc_processing)])
     = Some doc_processing \<and>
   status doc_processing = ''PROCESSING'' \<and>
   timers (run two_polls_in_flight
       [GotDocument 1 (Inl network_error), GotDocument 2 (Inr doc_processing)]) = []"
  by code_simp

theorem poller_after_fetch_witness:
  "timers (step two_polls_in_flight (GotDocument 1 (Inr doc_completed))) = [] \<and>
   (case pollingInterval (step two_polls_in_flight (GotDocument 2 (Inr doc_processing))) of
      Some h \<Rightarrow> timers (step two_polls_in_flight (GotDocument 2 (Inr doc_processing))) = [(h, 3000)]
    | None \<Rightarrow> False)"
proof -
  have r: "two_polls_in_flight =
      run (mount ''d1'') [GotDocument 0 (Inr doc_processing), Tick 1, Tick 1]"
    by (simp add: two_polls_in_flight_def)
  have a: "map_of (pending two_polls_in_flight) 1 = Some (GetDocument False)" by code_simp
  have b: "map_of (pending two_polls_in_flight) 2 = Some (GetDocument False)" by code_simp
  have q: "list_all quiet [GotDocument 0 (Inr doc_processing), Tick 1, Tick 1]" by simp
  have c: "\<not> polling_status (Some (status doc_completed))" by code_simp
  have p: "polling_status (Some (status doc_processing))" by code_simp
  from poller_after_fetch [OF r a refl, of doc_completed]
       poller_after_fetch [OF r b refl, of doc_processing] q c p
  show ?thesis by simp
qed

section \<open>Teardown (C3)\<close>

text \<open>
  C3, as the page has it. Unmounting clears the interval of the ref at once, no timer is
  live in any later state, and the view state stays what it was at teardown. A fetch in
  flight at teardown is not discarded by the page: when it arrives, the rest of
  \<^verbatim>\<open>loadDocument\<close> runs and calls \<^verbatim>\<open>setDocument\<close> (and
  \<^verbatim>\<open>setLoading\<close> for a fetch with the loading state); the calls change nothing
  because the component is unmounted.
\<close>

theorem teardown_cancels_timer:
  assumes "s0 = step (run (mount i) es) Unmount" and "s' = run s0 es'"
  shows "timers s0 = [] \<and> timers s' = [] \<and> view s' = view s0 \<and>
         setter_log (step s0 (GotDocument k (Inr d))) =
           setter_log s0 @
             (case map_of (pending s0) k of
                Some (GetDocument b) \<Rightarrow> SetDocument d # (if b then [SetLoading False] else [])
              | _ \<Rightarrow> [])"
proof -
  have m: "\<not> mounted s0"
    using assms(1) by (simp add: mounted_step)
  have "poller_inv s0"
    using assms(1) by (simp add: poller_inv_mount poller_inv_run poller_inv_step)
  then have inv: "poller_inv s'"
    using assms(2) by (simp add: poller_inv_run)
  have m': "\<not> mounted s'" and v: "view s' = view s0"
    using unmounted_run [OF m, of es'] assms(2) by simp_all
  have t0: "timers s0 = []"
    using \<open>poller_inv s0\<close> m by (simp add: poller_inv_def idle_unless_polling_def)
  have t': "timers s' = []"
    using inv m' by (simp add: poller_inv_def idle_unless_polling_def)
  have l: "setter_log (step s0 (GotDocument k (Inr d))) =
           setter_log s0 @
             (case map_of (pending s0) k of
                Some (GetDocument b) \<Rightarrow> SetDocument d # (if b then [SetLoading False] else [])
              | _ \<Rightarrow> [])"
    using m
    by (simp add: step_def commit_def loadDocument_settled_def setter_defs settle_def
          split: option.splits request.splits)
  from t0 t' v l show ?thesis by simp
qed

text \<open>
  The claim that no \<^verbatim>\<open>setDocument\<close> happens after teardown fails for the first
  fetch of a page that is unmounted before the fetch returns.
\<close>

theorem setter_called_after_teardown_counterexample:
  "map_of (pending (run (mount ''d1'') [Unmount])) 0 = Some (GetDocument True) \<and>
   \<not> mounted (run (mount ''d1'') [Unmount]) \<and>
   setter_log (run (mount ''d1'') [Unmount]) = [SetLoading True] \<and>
   setter_log (run (mount ''d1'') [Unmount, GotDocument 0 (Inr doc_completed)])
     = [SetLoading True, SetDocument doc_completed, SetLoading False]"
  by code_simp

theorem teardown_cancels_timer_witness:
  "timers (run (mount ''d1'') [GotDocument 0 (Inr doc_processing), Tick 1]) = [(1, 3000)] \<and>
   timers (run (mount ''d1'') [GotDocument 0 (Inr doc_processing), Tick 1, Unmount]) = [] \<and>
   timers (run (mount ''d1'')
     [GotDocument 0 (Inr doc_processing), Tick 1, Unmount, GotDocument 1 (Inr doc_completed)]) = [] \<and>
   view (run (mount ''d1'')
     [GotDocument 0 (Inr doc_processing), Tick 1, Unmount, GotDocument 1 (Inr doc_completed)])
     = (Some doc_processing, False, [], False, None, [], False)"
proof -
  let ?es = "[GotDocument 0 (Inr doc_processing), Tick 1]"
  have e1: "step (run (mount ''d1'') ?es) Unmount = run (mount ''d1'') (?es @ [Unmount])"
    by (simp add: run_def)
  have e2: "run (run (mount ''d1'') (?es @ [Unmount])) [GotDocument 1 (Inr doc_completed)]
      = run (mount ''d1'') (?es @ [Unmount, GotDocument 1 (Inr doc_completed)])"
    by (simp add: run_def)
  have b: "timers (run (mount ''d1'') ?es) = [(1, 3000)]" by code_simp
  have v: "view (run (mount ''d1'') (?es @ [Unmount]))
      = (Some doc_processing, False, [], False, None, [], False)" by code_simp
  from teardown_cancels_timer [OF refl refl, of "''d1''" ?es "[GotDocument 1 (Inr doc_completed)]"]
       e1 e2 b v
  show ?thesis by simp
qed

section \<open>Page numbers of the documents listing (C4)\<close>

text \<open>
  C4, as the page has it. The page number is at least 1 in every state the listing page
  reaches. A listing result leaves the page number as it is, whatever total it reports.
  Previous goes to \<open>max 1 (page - 1)\<close> and Next to \<open>page + 1\<close>, each only while its button
  is shown and enabled, so Next never takes the page number beyond
  \<open>ceil (total / 20)\<close>.
\<close>

theorem page_bounds:
  "1 \<le> page (list_run list_mount es) \<and>
   page (list_step s (Listed k r)) = page s \<and>
   page (list_step s ClickPrevious)
     = (if controls_shown s \<and> page s \<noteq> 1 then max 1 (page s - 1) else page s) \<and>
   page (list_step s ClickNext)
     = (if controls_shown s \<and> page s < page_count s then page s + 1 else page s) \<and>
   page (list_step s ClickNext) \<le> max (page s) (page_count s)"
proof -
  have "1 \<le> page list_mount"
    by (simp add: list_mount_def)
  then have "1 \<le> page (list_run list_mount es)"
    by (rule page_ge_1_run)
  moreover have "page (list_step s (Listed k r)) = page s"
    by (simp add: page_list_step page_Listed del: list_react.simps(1))
  moreover have "page (list_step s ClickPrevious)
     = (if controls_shown s \<and> page s \<noteq> 1 then max 1 (page s - 1) else page s)"
    by (simp add: page_list_step)
  moreover have n: "page (list_step s ClickNext)
     = (if controls_shown s \<and> page s < page_count s then page s + 1 else page s)"
    by (auto simp: page_list_step)
  moreover have "page (list_step s ClickNext) \<le> max (page s) (page_count s)"
    unfolding n by auto
  ultimately show ?thesis by simp
qed

text \<open>
  The claim that the page number is clamped when the total shrinks fails: on page 3 of 3
  (45 documents) a listing result reports 40 documents and none for page 3; the page
  number stays 3 with 2 pages left.
\<close>

theorem page_not_clamped_counterexample:
  "page (list_run list_mount
      [Listed 0 (Inr full_page), ClickNext, Listed 1 (Inr full_page), ClickNext,
       Listed 2 (Inr \<lparr>resp_documents = [], resp_total = 40\<rparr>)]) = 3 \<and>
   total (list_run list_mount
      [Listed 0 (Inr full_page), ClickNext, Listed 1 (Inr full_page), ClickNext,
       Listed 2 (Inr \<lparr>resp_documents = [], resp_total = 40\<rparr>)]) = 40 \<and>
   page_count (list_run list_mount
      [Listed 0 (Inr full_page), ClickNext, Listed 1 (Inr full_page), ClickNext,
       Listed 2 (Inr \<lparr>resp_documents = [], resp_total = 40\<rparr>)]) = 2"
  by code_simp

theorem page_bounds_witness:
  "1 \<le> page (list_run list_mount [Listed 0 (Inr full_page), ClickNext]) \<and>
   page (list_run list_mount [Listed 0 (Inr full_page), ClickNext]) = 2 \<and>
   page (list_step (list_run list_mount [Listed 0 (Inr full_page)]) ClickNext)
     \<le> max 1 3"
proof -
  let ?s = "list_run list_mount [Listed 0 (Inr full_page)]"
  have e: "list_run list_mount [Listed 0 (Inr full_page), ClickNext] = list_step ?s ClickNext"
    by (simp add: list_run_def)
  have c: "controls_shown ?s" by code_simp
  have p: "page ?s = 1" by code_simp
  have n: "page_count ?s = 3" by code_simp
  from page_bounds [of "[Listed 0 (Inr full_page), ClickNext]" ?s 0 "Inr full_page"] e c p n
  show ?thesis by (simp del: list_react.simps)
qed

section \<open>Delete of a document that is gone (C5)\<close>

text \<open>
  C5, as the page has it. When the delete call fails, with whatever error, the page shows
  the error's message and pushes no route; it pushes \<^verbatim>\<open>/documents\<close> only when the
  call succeeds, and then leaves the error as it was.
\<close>

theorem delete_failure_is_surfaced:
  assumes "mounted s" and "map_of (pending s) k = Some DeleteDocument"
  shows "error (step s (Deleted k (Inl err))) = message err \<and>
         pushed (step s (Deleted k (Inl err))) = pushed s \<and>
         error (step s (Deleted k (Inr ()))) = error s \<and>
         pushed (step s (Deleted k (Inr ()))) = pushed s @ [''/documents'']"
  using assms
  by (simp add: step_eq_react handleDelete_settled_def settle_def setter_defs)

text \<open>
  The claim that a NotFoundError on delete is treated as success fails: the page shows
  ``Document not found'' and does not leave the detail view.
\<close>

theorem not_found_on_delete_counterexample:
  "map_of (pending (run (mount ''d1'') [GotDocument 0 (Inr doc_completed), ClickDelete True])) 1
     = Some DeleteDocument \<and>
   kind not_found = NotFoundError \<and>
   error (run (mount ''d1'')
       [GotDocument 0 (Inr doc_completed), ClickDelete True, Deleted 1 (Inl not_found)])
     = ''Document not found'' \<and>
   pushed (run (mount ''d1'')
       [GotDocument 0 (Inr doc_completed), ClickDelete True, Deleted 1 (Inl not_found)]) = []"
  by code_simp

theorem delete_failure_is_surfaced_witness:
  "error (step (run (mount ''d1'') [GotDocument 0 (Inr doc_completed), ClickDelete True])
       (Deleted 1 (Inl not_found))) = ''Document not found'' \<and>
   pushed (step (run (mount ''d1'') [GotDocument 0 (Inr doc_completed), ClickDelete True])
       (Deleted 1 (Inl not_found))) = [] \<and>
   pushed (step (run (mount ''d1'') [GotDocument 0 (Inr doc_completed), ClickDelete True])
       (Deleted 1 (Inr ()))) = [''/documents'']"
proof -
  let ?s = "run (mount ''d1'') [GotDocument 0 (Inr doc_completed), ClickDelete True]"
  have m: "mounted ?s" by code_simp
  have p: "map_of (pending ?s) 1 = Some DeleteDocument" by code_simp
  have u: "pushed ?s = []" by code_simp
  from delete_failure_is_surfaced [OF m p, of not_found] u
  show ?thesis by (simp add: not_found_def)
qed

section \<open>Resolving with blank notes (C6)\<close>

text \<open>
  C6. When the resolution notes are empty or white space only, confirming the resolve
  dialog changes nothing: no call to \<^verbatim>\<open>resolveAlert\<close> is issued and the state of
  the page is the one before the click.
\<close>

theorem blank_notes_rejected:
  assumes "trim (resolutionNotes s) = []"
  shows "step s ClickConfirm = s"
  using assms
  by (simp add: step_def commit_def handleResolveAlert_def split: option.splits)

theorem blank_notes_rejected_witness:
  "trim (resolutionNotes (run (mount ''d1'')
      [GotDocument 0 (Inr doc_completed), ClickResolveFlag ''r1'', TypeNotes ''  ''])) = [] \<and>
   resolvingId (run (mount ''d1'')
      [GotDocument 0 (Inr doc_completed), ClickResolveFlag ''r1'', TypeNotes ''  '']) = Some ''r1'' \<and>
   pending (step (run (mount ''d1'')
      [GotDocument 0 (Inr doc_completed), ClickResolveFlag ''r1'', TypeNotes ''  '']) ClickConfirm) = []"
proof -
  let ?s = "run (mount ''d1'')
      [GotDocument 0 (Inr doc_completed), ClickResolveFlag ''r1'', TypeNotes ''  '']"
  have t: "trim (resolutionNotes ?s) = []" by code_simp
  have r: "resolvingId ?s = Some ''r1''" by code_simp
  have p: "pending ?s = []" by code_simp
  from blank_notes_rejected [OF t] t r p show ?thesis by simp
qed

section \<open>The name of the exported report (C7)\<close>

text \<open>
  C7 at the file name \<^verbatim>\<open>report.v2.pdf\<close>. The page names the download after the
  text before the first dot, \<^verbatim>\<open>Audit-Report-report-2026-11-03.json\<close>; the file
  name without its extension is \<^verbatim>\<open>report.v2\<close>, which gives
  \<^verbatim>\<open>Audit-Report-report.v2-2026-11-03.json\<close>.
\<close>

theorem export_name_of_dotted_filename:
  "original_filename doc_completed = ''report.v2.pdf'' \<and>
   downloads (run (mount ''d1'')
       [GotDocument 0 (Inr doc_completed), ClickExport,
        GotReport 1 (Inr (JObj [])) ''2026-11-03T10:15:30.000Z''])
     = [(''Audit-Report-report-2026-11-03.json'', JObj [])] \<and>
   spec_export_filename doc_completed ''2026-11-03'' = ''Audit-Report-report.v2-2026-11-03.json''"
  by code_simp

section \<open>Search submissions (C8)\<close>

text \<open>
  C8. In every state the search page reaches: submitting a query that is empty or white
  space only changes nothing, so no request is issued, and submitting any other query
  issues one request with the query. When the results \<open>rs\<close> of a search in flight arrive,
  sorted by descending similarity score by the service, the page displays exactly \<open>rs\<close>, in
  that order, which is the descending order of the scores.
\<close>

theorem search_submission:
  assumes "s = search_run search_initial es" and "by_descending_score rs"
  shows "(if trim (query s) = [] then search_step s Submit = s
          else search_pending (search_step s Submit)
                 = search_pending s @ [(search_next s, query s)]) \<and>
         (case map_of (search_pending s) k of
            None \<Rightarrow> search_step s (Found k (Inr rs)) = s
          | Some q \<Rightarrow>
              displayed (search_step s (Found k (Inr rs))) = rs \<and>
              by_descending_score (displayed (search_step s (Found k (Inr rs)))))"
proof -
  have sub: "if trim (query s) = [] then search_step s Submit = s
          else search_pending (search_step s Submit)
                 = search_pending s @ [(search_next s, query s)]"
    by (simp add: handleSearch_def)
  have "searched search_initial \<or> search_pending search_initial = []"
    by (simp add: search_initial_def)
  then have inv: "searched s \<or> search_pending s = []"
    unfolding assms(1) by (rule searched_run)
  have found: "displayed (search_step s (Found k (Inr rs))) = rs"
    if "map_of (search_pending s) k = Some q" for q
  proof -
    from that have "search_pending s \<noteq> []" by auto
    with inv have "searched s" by simp
    with that show ?thesis by (rule displayed_found)
  qed
  have "case map_of (search_pending s) k of
            None \<Rightarrow> search_step s (Found k (Inr rs)) = s
          | Some q \<Rightarrow>
              displayed (search_step s (Found k (Inr rs))) = rs \<and>
              by_descending_score (displayed (search_step s (Found k (Inr rs))))"
  proof (cases "map_of (search_pending s) k")
    case None
    then show ?thesis by simp
  next
    case (Some q)
    with found [OF Some] assms(2) show ?thesis by simp
  qed
  with sub show ?thesis by simp
qed

theorem search_submission_witness:
  "search_step (search_run search_initial [TypeQuery ''   '']) Submit
     = search_run search_initial [TypeQuery ''   ''] \<and>
   search_pending (search_step (search_run search_initial [TypeQuery ''total net income Q3'']) Submit)
     = [(0, ''total net income Q3'')] \<and>
   displayed (search_step (search_run search_initial [TypeQuery ''total net income Q3'', Submit])
       (Found 0 (Inr [hit 0.9, hit 0.7, hit 0.7, hit 0.2])))
     = [hit 0.9, hit 0.7, hit 0.7, hit 0.2]"
proof -
  let ?rs = "[hit 0.9, hit 0.7, hit 0.7, hit 0.2]"
  let ?blank = "search_run search_initial [TypeQuery ''   '']"
  let ?typed = "search_run search_initial [TypeQuery ''total net income Q3'']"
  let ?sent = "search_run search_initial [TypeQuery ''total net income Q3'', Submit]"
  have d: "by_descending_score ?rs"
    by (simp add: by_descending_score_def hit_def)
  have b: "trim (query ?blank) = []"
    by (simp add: search_run_def search_initial_def trim_def is_js_whitespace_def)
  have n: "trim (query ?typed) \<noteq> []"
    by (simp add: search_run_def search_initial_def trim_def is_js_whitespace_def)
  have p0: "search_pending ?typed = []" "search_next ?typed = 0"
    "query ?typed = ''total net income Q3''"
    by (simp_all add: search_run_def search_initial_def)
  have p: "map_of (search_pending ?sent) 0 = Some ''total net income Q3''"
    using n by (simp add: search_run_def search_initial_def handleSearch_def)
  have c1: "search_step ?blank Submit = ?blank"
    using search_submission [OF refl d, of "[TypeQuery ''   '']" 0, THEN conjunct1] b
    by (simp only: if_True)
  have c2: "search_pending (search_step ?typed Submit) = [(0, ''total net income Q3'')]"
    using search_submission [OF refl d, of "[TypeQuery ''total net income Q3'']" 0,
        THEN conjunct1] n
    by (simp only: if_False p0 append_Nil)
  have c3: "displayed (search_step ?sent (Found 0 (Inr ?rs))) = ?rs"
    using search_submission [OF refl d, of "[TypeQuery ''total net income Q3'', Submit]" 0,
        THEN conjunct2]
    by (simp only: p option.case)
  from c1 c2 c3 show ?thesis by (simp only: simp_thms)
qed

section \<open>Notes sent from the alerts page (C9)\<close>

text \<open>
  C9. On the alerts page the Dismiss and the Resolve button do the same: they issue one
  call to \<^verbatim>\<open>resolveAlert\<close> with the alert's id and the notes
  ``Manually reviewed and resolved.''. The notes are not blank after trimming, and in every
  state the page reaches each resolve call in flight carries exactly these notes.
\<close>

theorem alerts_page_fixed_notes:
  "alerts_step s (ClickDismiss i) = alerts_step s (ClickResolve i) \<and>
   alerts_pending (alerts_step s (ClickResolve i))
     = alerts_pending s @
         [(alerts_next s, ResolveAlertCall i ''Manually reviewed and resolved.'' (alerts s))] \<and>
   trim ''Manually reviewed and resolved.'' \<noteq> [] \<and>
   list_all fixed_notes (alerts_pending (alerts_run alerts_mount es))"
proof -
  have "list_all fixed_notes (alerts_pending alerts_mount)"
    by (simp add: alerts_mount_def loadAlerts_def alerts_issue_def)
  then have "list_all fixed_notes (alerts_pending (alerts_run alerts_mount es))"
    by (rule fixed_notes_run)
  then show ?thesis
    using fixed_notes_not_blank by (simp add: handleResolve_def alerts_issue_def)
qed

theorem alerts_page_fixed_notes_witness:
  "alerts_pending (alerts_step alerts_mount (ClickDismiss ''a1''))
     = [(0, ListAlerts None False),
        (1, ResolveAlertCall ''a1'' ''Manually reviewed and resolved.'' [])] \<and>
   alerts_step alerts_mount (ClickDismiss ''a1'') = alerts_step alerts_mount (ClickResolve ''a1'') \<and>
   list_all fixed_notes
     (alerts_pending (alerts_run alerts_mount [ClickResolve ''a1'', ClickDismiss ''a2'']))"
proof -
  have p: "alerts_pending alerts_mount = [(0, ListAlerts None False)]" by code_simp
  have n: "alerts_next alerts_mount = 1" by code_simp
  have a: "alerts alerts_mount = []" by code_simp
  from alerts_page_fixed_notes [of alerts_mount "''a1''" "[ClickResolve ''a1'', ClickDismiss ''a2'']"]
       p n a
  show ?thesis by (simp del: alerts_step.simps)
qed

section \<open>After a failed fetch (C10)\<close>

text \<open>
  C10, as the page has it. A fetch of the document fails while the ref holds a handle. The
  ref then keeps the handle of the cleared interval and no timer is live for as long as
  every fetched document that follows has the status PROCESSING or UPLOADED, whatever else
  happens. On a page still mounted, a fetched document with any other status then resets
  the ref to null, with no timer live; and from there, as long as no fetch of the document
  fails and the page is not torn down, the next fetched document with the status
  PROCESSING or UPLOADED arms the one timer of 3000 ms again.
\<close>

theorem no_timer_while_ref_is_stale:
  assumes "s = run (mount i) es"
    and "pollingInterval s \<noteq> None"
    and "map_of (pending s) k = Some (GetDocument b)"
    and "list_all (\<lambda>e. \<not> resets e) esa"
    and "sa = run (step s (GotDocument k (Inl err))) esa"
    and "sb = step sa (GotDocument ka (Inr da))"
    and "sc = step (run sb esb) (GotDocument kb (Inr db))"
  shows "timers sa = [] \<and> pollingInterval sa = pollingInterval s \<and>
         (mounted sa \<and> map_of (pending sa) ka = Some (GetDocument ba) \<and>
          \<not> polling_status (Some (status da)) \<longrightarrow>
            pollingInterval sb = None \<and> timers sb = [] \<and>
            (list_all quiet esb \<and> map_of (pending (run sb esb)) kb = Some (GetDocument bb) \<and>
             polling_status (Some (status db)) \<longrightarrow>
               (case pollingInterval sc of
                  Some h \<Rightarrow> timers sc = [(h, 3000)]
                | None \<Rightarrow> False)))"
proof -
  have inv: "poller_inv s"
    using assms(1) by (simp add: poller_inv_mount poller_inv_run)
  from stale_after_failure [OF inv assms(2,3), of err]
  have f: "stale_ref (step s (GotDocument k (Inl err)))"
    and r: "pollingInterval (step s (GotDocument k (Inl err))) = pollingInterval s"
    by simp_all
  from stale_run [OF f assms(4)] r assms(5)
  have a: "timers sa = []" "pollingInterval sa = pollingInterval s"
    by (simp_all add: stale_ref_def)
  have rp: "ref_implies_polling sa"
    unfolding assms(5) assms(1)
    by (intro ref_implies_polling_run ref_implies_polling_step ref_implies_polling_mount)
  have p: "polling_status (doc_status sa)"
    using rp a(2) assms(2) by (simp add: ref_implies_polling_def)
  have b: "pollingInterval sb = None \<and> timers sb = [] \<and>
        (list_all quiet esb \<and> map_of (pending (run sb esb)) kb = Some (GetDocument bb) \<and>
         polling_status (Some (status db)) \<longrightarrow>
           (case pollingInterval sc of Some h \<Rightarrow> timers sc = [(h, 3000)] | None \<Rightarrow> False))"
    if h: "mounted sa" "map_of (pending sa) ka = Some (GetDocument ba)"
      "\<not> polling_status (Some (status da))"
  proof -
    have n: "pollingInterval sa \<noteq> None"
      using a(2) assms(2) by simp
    from reset_by_terminal_result [OF h(1) n a(1) p h(2,3)]
    have z: "pollingInterval sb = None" "timers sb = []" "armed_iff_polling sb"
      unfolding assms(6) by simp_all
    have "case pollingInterval sc of Some h \<Rightarrow> timers sc = [(h, 3000)] | None \<Rightarrow> False"
      if g: "list_all quiet esb" "map_of (pending (run sb esb)) kb = Some (GetDocument bb)"
        "polling_status (Some (status db))"
    proof -
      have x: "armed_iff_polling (run sb esb)"
        using z(3) g(1) by (rule armed_run)
      then have "armed_iff_polling sc"
        unfolding assms(7) by (simp add: armed_step)
      moreover have "doc_status sc = Some (status db)"
        unfolding assms(7) using g(2) x by (simp add: doc_status_applied armed_iff_polling_def)
      ultimately show ?thesis
        using g(3) by (simp add: armed_iff_polling_def)
    qed
    with z show ?thesis by simp
  qed
  from a b show ?thesis by simp
qed

text \<open>
  The claim that no timer is ever armed again fails in two ways. With three polls in
  flight, fetch 1 fails, fetch 2 returns the failed document, which resets the ref, and
  fetch 3 returns a document in processing, which arms a new interval. With a failed
  document on the page and so no interval, the refresh after resolving a flag fails while
  a retry is under way; the ref is null, and the fetch after the retry returns the
  document in processing and arms an interval.
\<close>

theorem timer_rearmed_after_failure_counterexample:
  "map_of (pending three_polls_in_flight) 1 = Some (GetDocument False) \<and>
   pollingInterval three_polls_in_flight = Some 1 \<and>
   timers (run three_polls_in_flight [GotDocument 1 (Inl network_error)]) = [] \<and>
   mounted (run three_polls_in_flight
       [GotDocument 1 (Inl network_error), GotDocument 2 (Inr doc_failed),
        GotDocument 3 (Inr doc_processing)]) \<and>
   timers (run three_polls_in_flight
       [GotDocument 1 (Inl network_error), GotDocument 2 (Inr doc_failed),
        GotDocument 3 (Inr doc_processing)]) = [(2, 3000)] \<and>
   map_of (pending (run (mount ''d1'')
       [GotDocument 0 (Inr doc_failed), ClickResolveFlag ''r1'', TypeNotes ''reviewed'',
        ClickConfirm, Resolved 1 (Inr ()), ClickRetry, Retried 3 (Inr ())])) 2
     = Some (GetDocument False) \<and>
   timers (run (mount ''d1'')
       [GotDocument 0 (Inr doc_failed), ClickResolveFlag ''r1'', TypeNotes ''reviewed'',
        ClickConfirm, Resolved 1 (Inr ()), ClickRetry, Retried 3 (Inr ()),
        GotDocument 2 (Inl network_error), GotDocument 4 (Inr doc_processing)]) = [(1, 3000)]"
  by code_simp

theorem no_timer_while_ref_is_stale_witness:
  "pollingInterval four_polls_in_flight = Some 1 \<and>
   timers four_polls_in_flight = [(1, 3000)] \<and>
   timers (run four_polls_in_flight
       [GotDocument 1 (Inl network_error), GotDocument 2 (Inr doc_processing)]) = [] \<and>
   pollingInterval (run four_polls_in_flight
       [GotDocument 1 (Inl network_error), GotDocument 2 (Inr doc_processing)]) = Some 1 \<and>
   pollingInterval (run four_polls_in_flight
       [GotDocument 1 (Inl network_error), GotDocument 2 (Inr doc_processing),
        GotDocument 3 (Inr doc_failed)]) = None \<and>
   timers (run four_polls_in_flight
       [GotDocument 1 (Inl network_error), GotDocument 2 (Inr doc_processing),
        GotDocument 3 (Inr doc_failed)]) = [] \<and>
   pollingInterval (run four_polls_in_flight
       [GotDocument 1 (Inl network_error), GotDocument 2 (Inr doc_processing),
        GotDocument 3 (Inr doc_failed), GotDocument 4 (Inr doc_processing)]) = Some 2 \<and>
   timers (run four_polls_in_flight
       [GotDocument 1 (Inl network_error), GotDocument 2 (Inr doc_processing),
        GotDocument 3 (Inr doc_failed), GotDocument 4 (Inr doc_processing)]) = [(2, 3000)]"
proof -
  let ?s = four_polls_in_flight
  let ?s1 = "run (step ?s (GotDocument 1 (Inl network_error))) [GotDocument 2 (Inr doc_processing)]"
  let ?s2 = "step ?s1 (GotDocument 3 (Inr doc_failed))"
  let ?s3 = "step (run ?s2 []) (GotDocument 4 (Inr doc_processing))"
  have r: "?s = run (mount ''d1'')
      [GotDocument 0 (Inr doc_processing), Tick 1, Tick 1, Tick 1, Tick 1]"
    by (simp add: four_polls_in_flight_def)
  have n: "pollingInterval ?s = Some 1" by code_simp
  have t: "timers ?s = [(1, 3000)]" by code_simp
  have a: "map_of (pending ?s) 1 = Some (GetDocument False)" by code_simp
  have q: "list_all (\<lambda>e. \<not> resets e) [GotDocument 2 (Inr doc_processing)]"
    by (simp add: doc_processing_def polling_status_def)
  have n': "pollingInterval ?s \<noteq> None" using n by simp
  have m1: "mounted ?s1" by code_simp
  have p1: "map_of (pending ?s1) 3 = Some (GetDocument False)" by code_simp
  have d1: "\<not> polling_status (Some (status doc_failed))" by code_simp
  have q2: "list_all quiet []" by simp
  have p2: "map_of (pending (run ?s2 [])) 4 = Some (GetDocument False)" by code_simp
  have d2: "polling_status (Some (status doc_processing))" by code_simp
  have h3: "pollingInterval ?s3 = Some 2" by code_simp
  have e1: "run ?s [GotDocument 1 (Inl network_error), GotDocument 2 (Inr doc_processing)] = ?s1"
    and e2: "run ?s [GotDocument 1 (Inl network_error), GotDocument 2 (Inr doc_processing),
        GotDocument 3 (Inr doc_failed)] = ?s2"
    and e3: "run ?s [GotDocument 1 (Inl network_error), GotDocument 2 (Inr doc_processing),
        GotDocument 3 (Inr doc_failed), GotDocument 4 (Inr doc_processing)] = ?s3"
    by (simp_all add: run_def)
  note w = no_timer_while_ref_is_stale [where err = network_error and ka = 3
      and da = doc_failed and ba = False and esb = "[]" and kb = 4 and bb = False
      and db = doc_processing, OF r n' a q refl refl refl]
  from w have c1: "timers ?s1 = []" "pollingInterval ?s1 = pollingInterval ?s"
    by blast+
  from w m1 p1 d1 have c2: "pollingInterval ?s2 = None" "timers ?s2 = []"
    by blast+
  from w m1 p1 d1 q2 p2 d2
  have "case pollingInterval ?s3 of Some h \<Rightarrow> timers ?s3 = [(h, 3000)] | None \<Rightarrow> False"
    by blast
  with h3 have c3: "timers ?s3 = [(2, 3000)]"
    by simp
  from n t c1 c2 c3 h3 show ?thesis
    unfolding e1 e2 e3 by simp
qed

end
